theory Spec2Isabelle
  imports Main "HOL-Library.Word"
begin

unbundle bit_operations_syntax

section \<open>Retained memory\<close>

text \<open>
  The library of \<^verbatim>\<open>ParticleRetainedAtomic.h\<close> keeps no data of its own: a
  \<^verbatim>\<open>SavePage\<close> holds three references into retained RAM that the caller declares
  (the record of type \<^verbatim>\<open>T\<close>, a \<^verbatim>\<open>uint16_t\<close> sequence number and a
  \<^verbatim>\<open>uint32_t\<close> checksum). The model therefore has an explicit retained memory,
  and a page is the name of one of the two \<^verbatim>\<open>SavePage\<close> members; every page
  operation takes the memory and returns the memory it leaves behind.

  The record \<^verbatim>\<open>T\<close> is modelled by its object representation, the list of its
  \<^verbatim>\<open>sizeof(T)\<close> bytes, because \<^verbatim>\<open>calculateChecksum\<close> reads it through a
  \<^verbatim>\<open>uint8_t*\<close>. Assignment of a \<^verbatim>\<open>T\<close> copies all of these bytes, and the
  two page regions are distinct objects. Calls to the logger \<^verbatim>\<open>retlog\<close> have no
  effect on the memory or on control flow and are left out.
\<close>

type_synonym u8 = "8 word"
type_synonym u16 = "16 word"
type_synonym u32 = "32 word"

record ParticleRetainedAtomicData_t =
  seqNumA :: u16
  seqNumB :: u16
  checksumA :: u32
  checksumB :: u32

record retained =
  retainedPageA :: "u8 list"
  retainedPageB :: "u8 list"
  retainedData :: ParticleRetainedAtomicData_t

text \<open>The two members \<^verbatim>\<open>m_a\<close> and \<^verbatim>\<open>m_b\<close> of the store.\<close>

datatype page = M_a | M_b

text \<open>
  The references bound by the constructor's initialiser list (lines 241-242):
  \<^verbatim>\<open>m_a\<close> is \<^verbatim>\<open>(retainedPageA, seqNumA, checksumA)\<close> and \<^verbatim>\<open>m_b\<close> is
  \<^verbatim>\<open>(retainedPageB, seqNumB, checksumB)\<close>.
\<close>

fun m_data :: "retained \<Rightarrow> page \<Rightarrow> u8 list" where
  "m_data r M_a = retainedPageA r"
| "m_data r M_b = retainedPageB r"

fun m_seqNum :: "retained \<Rightarrow> page \<Rightarrow> u16" where
  "m_seqNum r M_a = seqNumA (retainedData r)"
| "m_seqNum r M_b = seqNumB (retainedData r)"

fun m_checksum :: "retained \<Rightarrow> page \<Rightarrow> u32" where
  "m_checksum r M_a = checksumA (retainedData r)"
| "m_checksum r M_b = checksumB (retainedData r)"

fun set_data :: "retained \<Rightarrow> page \<Rightarrow> u8 list \<Rightarrow> retained" where
  "set_data r M_a v = r\<lparr>retainedPageA := v\<rparr>"
| "set_data r M_b v = r\<lparr>retainedPageB := v\<rparr>"

fun set_seqNum :: "retained \<Rightarrow> page \<Rightarrow> u16 \<Rightarrow> retained" where
  "set_seqNum r M_a v = r\<lparr>retainedData := (retainedData r)\<lparr>seqNumA := v\<rparr>\<rparr>"
| "set_seqNum r M_b v = r\<lparr>retainedData := (retainedData r)\<lparr>seqNumB := v\<rparr>\<rparr>"

fun set_checksum :: "retained \<Rightarrow> page \<Rightarrow> u32 \<Rightarrow> retained" where
  "set_checksum r M_a v = r\<lparr>retainedData := (retainedData r)\<lparr>checksumA := v\<rparr>\<rparr>"
| "set_checksum r M_b v = r\<lparr>retainedData := (retainedData r)\<lparr>checksumB := v\<rparr>\<rparr>"

section \<open>SavePage\<close>

text \<open>
  \<^verbatim>\<open>SavePage::init\<close> (lines 125-130): the record is overwritten with the given
  value and the sequence number becomes 1; the checksum is not touched.
\<close>

definition init :: "retained \<Rightarrow> page \<Rightarrow> u8 list \<Rightarrow> retained" where
  "init r p initData = set_seqNum (set_data r p initData) p 1"

text \<open>\<^verbatim>\<open>SavePage::clearChecksum\<close> (lines 137-141).\<close>

definition clearChecksum :: "retained \<Rightarrow> page \<Rightarrow> retained" where
  "clearChecksum r p = set_checksum r p (NOT (m_checksum r p))"

text \<open>
  The \<^verbatim>\<open>do { sum += *(p++); } while (p < pEnd);\<close> loop of
  \<^verbatim>\<open>calculateChecksum\<close> (lines 208-211), on the bytes from \<^verbatim>\<open>p\<close> up to
  \<^verbatim>\<open>pEnd\<close>. The body runs before the test, so the first byte is read whatever
  the size is. Every C++ object type has \<^verbatim>\<open>sizeof(T) >= 1\<close>, so the region is
  never empty; the function has no equation for the empty list.
\<close>

fun sum_loop :: "u32 \<Rightarrow> u8 list \<Rightarrow> u32" where
  "sum_loop sum0 (b # bs) =
     (let sum1 = sum0 + ucast b in if bs \<noteq> [] then sum_loop sum1 bs else sum1)"

text \<open>
  \<^verbatim>\<open>SavePage::calculateChecksum\<close> (lines 198-220). In the two additions of the
  sequence number the \<^verbatim>\<open>uint16_t\<close> is promoted to a 32-bit integer before the
  mask and the shift.
\<close>

definition calculateChecksum :: "retained \<Rightarrow> page \<Rightarrow> u32" where
  "calculateChecksum r p =
     (let sum0 = sum_loop 0 (m_data r p);
          sum1 = sum0 + drop_bit 8 (0xff00 AND ucast (m_seqNum r p));
          sum2 = sum1 + (ucast (m_seqNum r p) AND 0xff)
      in NOT sum2)"

text \<open>\<^verbatim>\<open>SavePage::isValid\<close> (lines 147-151).\<close>

definition isValid :: "retained \<Rightarrow> page \<Rightarrow> bool" where
  "isValid r p = (calculateChecksum r p = m_checksum r p)"

text \<open>\<^verbatim>\<open>SavePage::writeChecksum\<close> (lines 156-160).\<close>

definition writeChecksum :: "retained \<Rightarrow> page \<Rightarrow> retained" where
  "writeChecksum r p = set_checksum r p (calculateChecksum r p)"

text \<open>
  \<^verbatim>\<open>SavePage::operator=\<close> (lines 173-188), \<^verbatim>\<open>this\<close> first and \<^verbatim>\<open>rhs\<close>
  second. Assigning a page to itself returns at once.
\<close>

definition operator_assign :: "retained \<Rightarrow> page \<Rightarrow> page \<Rightarrow> retained" where
  "operator_assign r this rhs =
     (if this = rhs then r
      else
        let r1 = set_data r this (m_data r rhs);
            r2 = (if m_seqNum r1 rhs = 0xFFFF then set_seqNum r1 this 1
                  else set_seqNum r1 this (m_seqNum r1 rhs + 1))
        in set_checksum r2 this (m_checksum r2 rhs))"

section \<open>ParticleRetainedAtomic\<close>

text \<open>
  The store: the retained memory its two pages refer to, and the two pointers
  \<^verbatim>\<open>m_scratchpad\<close> and \<^verbatim>\<open>m_saved\<close> (lines 94-97).
\<close>

record store =
  mem :: retained
  m_scratchpad :: page
  m_saved :: page

text \<open>\<^verbatim>\<open>ParticleRetainedAtomic::save\<close> (lines 327-337).\<close>

definition save :: "store \<Rightarrow> store" where
  "save s =
     (let r1 = writeChecksum (mem s) (m_scratchpad s);
          r2 = operator_assign r1 (m_saved s) (m_scratchpad s);
          r3 = clearChecksum r2 (m_saved s);
          a = m_saved s
      in \<lparr>mem = r3, m_scratchpad = a, m_saved = m_scratchpad s\<rparr>)"

text \<open>
  The body of the constructor up to the call of \<^verbatim>\<open>save\<close> (lines 247-284): which
  page becomes the scratchpad, and whether page A is first initialised from the
  default value.
\<close>

definition recover :: "retained \<Rightarrow> u8 list \<Rightarrow> store" where
  "recover r defaultValue =
     (if isValid r M_a then
        (if isValid r M_b then
           (if m_seqNum r M_a > m_seqNum r M_b \<or> (m_seqNum r M_b = 0xFFFF \<and> m_seqNum r M_a = 1)
            then \<lparr>mem = r, m_scratchpad = M_a, m_saved = M_b\<rparr>
            else if m_seqNum r M_b > m_seqNum r M_a \<or> (m_seqNum r M_a = 0xFFFF \<and> m_seqNum r M_b = 1)
            then \<lparr>mem = r, m_scratchpad = M_b, m_saved = M_a\<rparr>
            else \<lparr>mem = init r M_a defaultValue, m_scratchpad = M_a, m_saved = M_b\<rparr>)
         else \<lparr>mem = r, m_scratchpad = M_a, m_saved = M_b\<rparr>)
      else if isValid r M_b then \<lparr>mem = r, m_scratchpad = M_b, m_saved = M_a\<rparr>
      else \<lparr>mem = init r M_a defaultValue, m_scratchpad = M_a, m_saved = M_b\<rparr>)"

text \<open>
  The constructor \<^verbatim>\<open>ParticleRetainedAtomic\<close> (lines 235-286): the resolution above,
  then an unconditional \<^verbatim>\<open>save()\<close>. It returns nothing and throws nothing, so
  the model is a total function to the constructed store.
\<close>

definition ParticleRetainedAtomic :: "retained \<Rightarrow> u8 list \<Rightarrow> store" where
  "ParticleRetainedAtomic r defaultValue = save (recover r defaultValue)"

text \<open>\<^verbatim>\<open>getScratchpad\<close> (lines 296-300); \<^verbatim>\<open>operator->\<close> returns its address.\<close>

definition getScratchpad :: "store \<Rightarrow> u8 list" where
  "getScratchpad s = m_data (mem s) (m_scratchpad s)"

text \<open>
  The caller's write through the reference that \<^verbatim>\<open>getScratchpad\<close> returns:
  \<^verbatim>\<open>store.getScratchpad() = v\<close>.
\<close>

definition writeScratchpad :: "store \<Rightarrow> u8 list \<Rightarrow> store" where
  "writeScratchpad s v = s\<lparr>mem := set_data (mem s) (m_scratchpad s) v\<rparr>"

section \<open>Vocabulary of the specification\<close>

text \<open>
  The successor of a sequence number as the specification words it: one more, and 1
  after the largest 16-bit value. It is compared below with what
  \<^verbatim>\<open>operator=\<close> writes.
\<close>

definition next_seqNum :: "u16 \<Rightarrow> u16" where
  "next_seqNum q = (if q = 0xFFFF then 1 else q + 1)"

text \<open>
  The checksum as the specification words it, on natural numbers: the sum modulo
  \<open>2^32\<close> of every byte of the record, of the high byte and of the low byte of
  the sequence number, complemented in 32 bits.
\<close>

definition spec_checksum :: "u8 list \<Rightarrow> u16 \<Rightarrow> nat" where
  "spec_checksum bytes seqNum =
     2 ^ 32 - 1 -
     (sum_list (map unat bytes) + unat seqNum div 256 + unat seqNum mod 256) mod 2 ^ 32"

text \<open>
  The sum that the checksum complements, before it is reduced modulo \<open>2^32\<close>.
\<close>

definition byte_sum :: "u8 list \<Rightarrow> u16 \<Rightarrow> nat" where
  "byte_sum bytes seqNum = sum_list (map unat bytes) + unat seqNum div 256 + unat seqNum mod 256"

text \<open>Exactly one of the two pages passes \<^verbatim>\<open>isValid\<close>.\<close>

definition single_valid :: "retained \<Rightarrow> bool" where
  "single_valid r = (isValid r M_a \<noteq> isValid r M_b)"

section \<open>Concrete retained memories\<close>

text \<open>
  Small memories on which the theorems below are run. In \<open>c8_mem\<close> page A holds
  the bytes \<open>0x12 0x34\<close> with sequence number 7 and the matching checksum.
  \<open>c1_mem\<close> is blank retained RAM for a two-byte record. In \<open>c9_mem\<close> both
  pages carry a matching checksum and the same sequence number 5.
\<close>

definition c8_mem :: retained where
  "c8_mem = \<lparr>retainedPageA = [0x12, 0x34], retainedPageB = [0, 0],
     retainedData = \<lparr>seqNumA = 7, seqNumB = 0, checksumA = 0xFFFFFFB2, checksumB = 0\<rparr>\<rparr>"

definition c1_mem :: retained where
  "c1_mem = \<lparr>retainedPageA = [0, 0], retainedPageB = [0, 0],
     retainedData = \<lparr>seqNumA = 0, seqNumB = 0, checksumA = 0, checksumB = 0\<rparr>\<rparr>"

definition c9_mem :: retained where
  "c9_mem = \<lparr>retainedPageA = [1], retainedPageB = [2],
     retainedData = \<lparr>seqNumA = 5, seqNumB = 5, checksumA = 0xFFFFFFF9, checksumB = 0xFFFFFFF8\<rparr>\<rparr>"

text \<open>
  In \<open>c2_mem\<close> both pages are valid, page A with sequence number 65535 and the byte
  \<open>0xAA\<close>, page B with sequence number 1 and the byte \<open>0xBB\<close>: the state that
  a reset leaves between the first and the second statement of \<^verbatim>\<open>save\<close> when
  the scratchpad was page B and page A held sequence number 65535.
\<close>

definition c2_mem :: retained where
  "c2_mem = \<lparr>retainedPageA = [0xAA], retainedPageB = [0xBB],
     retainedData = \<lparr>seqNumA = 0xFFFF, seqNumB = 1, checksumA = 0xFFFFFD57, checksumB = 0xFFFFFF43\<rparr>\<rparr>"

text \<open>
  Records of more than eight million bytes. \<open>big_record\<close> has 8421503 bytes that
  add up to \<open>2^31 - 510\<close>; in \<open>c3_mem\<close> page A holds it, valid, with sequence
  number 65534, and page B is blank. \<open>c4_mem\<close> is blank retained RAM for a record
  of 8421505 bytes and \<open>c4_default\<close> a default value of that size whose bytes add
  up to \<open>2^31 - 2\<close>.
\<close>

definition big_record :: "u8 list" where
  "big_record = replicate 8421502 0xFF @ [0x80]"

definition c3_mem :: retained where
  "c3_mem = \<lparr>retainedPageA = big_record, retainedPageB = replicate 8421503 0,
     retainedData = \<lparr>seqNumA = 0xFFFE, seqNumB = 0, checksumA = 0x80000000, checksumB = 0\<rparr>\<rparr>"

definition c3_default :: "u8 list" where
  "c3_default = replicate 8421503 0"

definition c4_mem :: retained where
  "c4_mem = \<lparr>retainedPageA = replicate 8421505 0, retainedPageB = replicate 8421505 0,
     retainedData = \<lparr>seqNumA = 0, seqNumB = 0, checksumA = 0, checksumB = 0\<rparr>\<rparr>"

definition c4_default :: "u8 list" where
  "c4_default = replicate 8421504 0xFF @ [0x7E]"

section \<open>Words and bytes\<close>

lemma xff00_eq: "(0xff00 :: u32) = push_bit 8 (mask 8)"
  by (simp add: mask_eq_exp_minus_1)

lemma xff_eq: "(0xff :: u32) = mask 8"
  by (simp add: mask_eq_exp_minus_1)

lemma hi_word: "drop_bit 8 (0xff00 AND (ucast (q::u16) :: u32)) = ucast (drop_bit 8 q)"
  unfolding xff00_eq
  apply (rule bit_word_eqI)
  apply (auto simp add: bit_simps dest: bit_imp_le_length)
  done

lemma lo_word: "(ucast (q::u16) :: u32) AND 0xff = ucast (take_bit 8 q)"
  unfolding xff_eq
  apply (rule bit_word_eqI)
  apply (auto simp add: bit_simps)
  done

lemma unat_ucast_16_32: "unat (ucast (q::u16) :: u32) = unat q"
proof -
  have "unat q < 2 ^ LENGTH(16)" by (rule unsigned_less)
  then show ?thesis by (simp add: unsigned_ucast_eq take_bit_nat_eq_self_iff)
qed

lemma hi_byte: "unat (drop_bit 8 (0xff00 AND (ucast (q::u16) :: u32))) = unat q div 256"
  by (simp only: hi_word unat_ucast_16_32) (simp add: unat_drop_bit_eq drop_bit_eq_div unat_div)

lemma lo_byte: "unat ((ucast (q::u16) :: u32) AND 0xff) = unat q mod 256"
  by (simp only: lo_word unat_ucast_16_32) (simp add: unsigned_take_bit_eq take_bit_eq_mod unat_mod)

lemma unat_not: "unat (NOT (w::u32)) = 2^32 - 1 - unat w"
proof -
  have "NOT w = - 1 - w" by (simp add: not_eq_complement)
  moreover have "unat (- 1 - w) = unat (- 1 :: u32) - unat w"
    by (rule unat_sub) simp
  ultimately show ?thesis by (simp add: unsigned_minus_1_eq_mask mask_eq_exp_minus_1)
qed



lemma unat_ucast_8_32: "unat (ucast (q::u8) :: u32) = unat q"
proof -
  have "unat q < 2 ^ LENGTH(8)" by (rule unsigned_less)
  then show ?thesis by (simp add: unsigned_ucast_eq take_bit_nat_eq_self_iff)
qed

lemma ucast_inj: "(ucast (a::u8) :: u32) = ucast (b::u8) \<Longrightarrow> a = b"
proof -
  assume "(ucast a :: u32) = ucast b"
  then have "unat (ucast a :: u32) = unat (ucast b :: u32)" by simp
  then have "unat a = unat b" by (simp only: unat_ucast_8_32)
  then show "a = b" by (simp add: word_unat_eq_iff)
qed

lemma word_of_unat: "(of_nat (unat (w::u32)) :: u32) = w"
  by simp

lemma ucast_of_nat: "(ucast (b::u8) :: u32) = of_nat (unat b)"
  using word_of_unat [of "ucast b"] by (simp only: unat_ucast_8_32)

lemma not_small_neq_small:
  assumes "a < 2 ^ 31" and "b < 2 ^ 31"
  shows "NOT (of_nat a :: u32) \<noteq> of_nat b"
proof
  assume eq: "NOT (of_nat a :: u32) = of_nat b"
  have ua: "unat (of_nat a :: u32) = a" using assms(1) by (simp add: unat_of_nat)
  have ub: "unat (of_nat b :: u32) = b" using assms(2) by (simp add: unat_of_nat)
  have "unat (NOT (of_nat a :: u32)) = 2 ^ 32 - 1 - a" by (simp only: unat_not ua)
  with eq ub have "2 ^ 32 - 1 - a = b" by simp
  with assms show False by simp
qed

lemma of_nat_byte_eq:
  assumes "(of_nat (unat (a::u8)) :: u32) = of_nat (unat (b::u8))"
  shows "a = b"
proof -
  have "(ucast a :: u32) = ucast b" using assms by (simp only: ucast_of_nat)
  then show ?thesis by (rule ucast_inj)
qed

section \<open>The checksum as a sum\<close>

lemma sum_loop_eq: "bs \<noteq> [] \<Longrightarrow> sum_loop a bs = a + sum_list (map ucast bs)"
proof (induction bs arbitrary: a)
  case Nil
  then show ?case by simp
next
  case (Cons b bs)
  then show ?case by (cases "bs = []") (simp_all add: Let_def add.assoc)
qed

lemma sum_list_ucast: "(sum_list (map ucast (bs :: u8 list)) :: u32) = of_nat (sum_list (map unat bs))"
proof (induction bs)
  case Nil
  then show ?case by simp
next
  case (Cons b bs)
  have "(sum_list (map ucast (b # bs)) :: u32) = ucast b + sum_list (map ucast bs)" by simp
  also have "\<dots> = of_nat (unat b) + of_nat (sum_list (map unat bs))"
    by (simp only: Cons.IH ucast_of_nat)
  also have "\<dots> = of_nat (sum_list (map unat (b # bs)))" by simp
  finally show ?case .
qed

lemma hi_of_nat: "drop_bit 8 (0xff00 AND (ucast (q::u16) :: u32)) = of_nat (unat q div 256)"
  using word_of_unat [of "drop_bit 8 (0xff00 AND (ucast q :: u32))"] by (simp only: hi_byte)

lemma lo_of_nat: "(ucast (q::u16) :: u32) AND 0xff = of_nat (unat q mod 256)"
  using word_of_unat [of "(ucast q :: u32) AND 0xff"] by (simp only: lo_byte)

lemma calculateChecksum_byte_sum:
  assumes "m_data r p \<noteq> []"
  shows "calculateChecksum r p = NOT (of_nat (byte_sum (m_data r p) (m_seqNum r p)))"
  unfolding calculateChecksum_def Let_def hi_of_nat lo_of_nat sum_loop_eq [OF assms] sum_list_ucast
  by (simp add: byte_sum_def)

lemma unat_calculateChecksum:
  assumes "m_data r p \<noteq> []"
  shows "unat (calculateChecksum r p) = 2 ^ 32 - 1 - byte_sum (m_data r p) (m_seqNum r p) mod 2 ^ 32"
  unfolding calculateChecksum_byte_sum [OF assms] unat_not
  by (simp add: unat_of_nat)

lemma sum_list_unat_le: "sum_list (map unat (bs :: u8 list)) \<le> 255 * length bs"
proof (induction bs)
  case Nil
  then show ?case by simp
next
  case (Cons b bs)
  have "unat b < 2 ^ LENGTH(8)" by (rule unsigned_less)
  then have "unat b \<le> 255" by simp
  with Cons show ?case by simp
qed

lemma byte_sum_le: "byte_sum bs q \<le> 255 * length bs + unat q div 256 + unat q mod 256"
  using sum_list_unat_le [of bs] by (simp add: byte_sum_def)

lemma byte_sum_le_510: "byte_sum bs q \<le> 255 * length bs + 510"
proof -
  have "unat q < 2 ^ LENGTH(16)" by (rule unsigned_less)
  then have "unat q div 256 \<le> 255" by simp
  moreover have "unat q mod 256 \<le> 255" by simp
  ultimately show ?thesis using byte_sum_le [of bs q] by linarith
qed

lemma sum_list_update_unat:
  "i < length xs \<Longrightarrow>
   sum_list (map unat (xs[i := v])) + unat (xs ! i) = sum_list (map unat xs) + unat v"
  for xs :: "u8 list"
proof (induction xs arbitrary: i)
  case Nil
  then show ?case by simp
next
  case (Cons x xs)
  then show ?case by (cases i) simp_all
qed

section \<open>Reading and writing the retained memory\<close>

lemma page_neq_cases: "p \<noteq> q \<Longrightarrow> (p = M_a \<and> q = M_b) \<or> (p = M_b \<and> q = M_a)"
  by (cases p; cases q) simp_all

lemma m_data_set_data [simp]: "m_data (set_data r q v) p = (if p = q then v else m_data r p)"
  by (cases p; cases q) simp_all

lemma m_data_set_seqNum [simp]: "m_data (set_seqNum r q v) p = m_data r p"
  by (cases p; cases q) simp_all

lemma m_data_set_checksum [simp]: "m_data (set_checksum r q v) p = m_data r p"
  by (cases p; cases q) simp_all

lemma m_seqNum_set_data [simp]: "m_seqNum (set_data r q v) p = m_seqNum r p"
  by (cases p; cases q) simp_all

lemma m_seqNum_set_seqNum [simp]: "m_seqNum (set_seqNum r q v) p = (if p = q then v else m_seqNum r p)"
  by (cases p; cases q) simp_all

lemma m_seqNum_set_checksum [simp]: "m_seqNum (set_checksum r q v) p = m_seqNum r p"
  by (cases p; cases q) simp_all

lemma m_checksum_set_data [simp]: "m_checksum (set_data r q v) p = m_checksum r p"
  by (cases p; cases q) simp_all

lemma m_checksum_set_seqNum [simp]: "m_checksum (set_seqNum r q v) p = m_checksum r p"
  by (cases p; cases q) simp_all

lemma m_checksum_set_checksum [simp]:
  "m_checksum (set_checksum r q v) p = (if p = q then v else m_checksum r p)"
  by (cases p; cases q) simp_all

lemma calculateChecksum_cong:
  "m_data r p = m_data r' p' \<Longrightarrow> m_seqNum r p = m_seqNum r' p' \<Longrightarrow>
   calculateChecksum r p = calculateChecksum r' p'"
  by (simp add: calculateChecksum_def)

lemma calculateChecksum_set_checksum [simp]:
  "calculateChecksum (set_checksum r q v) p = calculateChecksum r p"
  by (rule calculateChecksum_cong) simp_all

lemma save_pointers:
  "m_scratchpad (save s) = m_saved s" "m_saved (save s) = m_scratchpad s"
  by (simp_all add: save_def Let_def)

lemma save_data:
  "m_data (mem (save s)) p = m_data (mem s) (m_scratchpad s)" if "m_saved s \<noteq> m_scratchpad s \<or> p = m_scratchpad s"
  using that
  by (cases p; cases "m_saved s"; cases "m_scratchpad s")
     (simp_all add: save_def Let_def clearChecksum_def operator_assign_def writeChecksum_def)

lemma save_seqNum_saved:
  "m_seqNum (mem (save s)) (m_scratchpad s) = m_seqNum (mem s) (m_scratchpad s)"
  by (simp add: save_def Let_def clearChecksum_def operator_assign_def writeChecksum_def)

lemma save_seqNum_scratchpad:
  "m_saved s \<noteq> m_scratchpad s \<Longrightarrow>
   m_seqNum (mem (save s)) (m_saved s) = next_seqNum (m_seqNum (mem s) (m_scratchpad s))"
  by (simp add: save_def Let_def clearChecksum_def operator_assign_def writeChecksum_def next_seqNum_def)

lemma save_checksum_saved:
  "m_saved s \<noteq> m_scratchpad s \<Longrightarrow>
   m_checksum (mem (save s)) (m_scratchpad s) = calculateChecksum (mem s) (m_scratchpad s)"
  by (simp add: save_def Let_def clearChecksum_def operator_assign_def writeChecksum_def)

lemma save_checksum_scratchpad:
  "m_saved s \<noteq> m_scratchpad s \<Longrightarrow>
   m_checksum (mem (save s)) (m_saved s) = NOT (calculateChecksum (mem s) (m_scratchpad s))"
  by (simp add: save_def Let_def clearChecksum_def operator_assign_def writeChecksum_def)

lemma save_saved_valid:
  assumes "m_saved s \<noteq> m_scratchpad s"
  shows "isValid (mem (save s)) (m_scratchpad s)"
proof -
  have "calculateChecksum (mem (save s)) (m_scratchpad s) = calculateChecksum (mem s) (m_scratchpad s)"
    by (rule calculateChecksum_cong) (simp_all add: save_data save_seqNum_saved)
  then show ?thesis by (simp add: isValid_def save_checksum_saved assms)
qed

lemma getScratchpad_save: "getScratchpad (save s) = getScratchpad s"
proof (cases "m_saved s = m_scratchpad s")
  case True
  then show ?thesis
    by (simp add: getScratchpad_def save_def Let_def clearChecksum_def operator_assign_def
        writeChecksum_def)
next
  case False
  then show ?thesis by (simp add: getScratchpad_def save_pointers save_data)
qed

lemma next_seqNum_neq: "next_seqNum q \<noteq> q"
  by (simp add: next_seqNum_def)

lemma next_seqNum_nonzero: "next_seqNum q \<noteq> 0"
proof (cases "q = 0xFFFF")
  case True
  then show ?thesis by (simp add: next_seqNum_def)
next
  case False
  have "q + 1 \<noteq> 0"
  proof
    assume "q + 1 = 0"
    then have "q = - 1" by (simp add: eq_neg_iff_add_eq_0)
    with False show False by simp
  qed
  with False show ?thesis by (simp add: next_seqNum_def)
qed

lemma unat_next_seqNum:
  "unat (next_seqNum q) = (if unat q = 65535 then 1 else unat q + 1)"
proof (cases "q = 0xFFFF")
  case True
  then show ?thesis by (simp add: next_seqNum_def)
next
  case False
  then have ne: "unat q \<noteq> 65535" by (simp add: word_unat_eq_iff)
  have "unat q < 2 ^ LENGTH(16)" by (rule unsigned_less)
  with ne have "unat q + 1 < 2 ^ LENGTH(16)" by simp
  then have "unat (q + 1) = unat q + unat (1 :: u16)" by (simp add: unat_add_lem [THEN iffD1])
  with False ne show ?thesis by (simp add: next_seqNum_def)
qed

lemma recover_keeps:
  assumes "isValid r M_a \<or> isValid r M_b" and "m_seqNum r M_a \<noteq> m_seqNum r M_b"
  shows "mem (recover r d) = r \<and> m_saved (recover r d) \<noteq> m_scratchpad (recover r d)"
proof -
  from assms(2) have "m_seqNum r M_a > m_seqNum r M_b \<or> m_seqNum r M_b > m_seqNum r M_a"
    by (rule linorder_neqE) simp_all
  with assms(1) show ?thesis by (auto simp add: recover_def)
qed

lemma recover_distinct: "m_saved (recover r d) \<noteq> m_scratchpad (recover r d)"
  by (simp add: recover_def)

text \<open>
  The two pointers of a store name different pages: the constructor leaves them so,
  and neither \<^verbatim>\<open>save\<close> nor a write through the scratchpad reference changes
  that.
\<close>

lemma ParticleRetainedAtomic_distinct:
  "m_saved (ParticleRetainedAtomic r d) \<noteq> m_scratchpad (ParticleRetainedAtomic r d)"
  using recover_distinct [of r d] by (simp add: ParticleRetainedAtomic_def save_pointers)

lemma save_distinct:
  "m_saved s \<noteq> m_scratchpad s \<Longrightarrow> m_saved (save s) \<noteq> m_scratchpad (save s)"
  by (simp add: save_pointers)

lemma writeScratchpad_distinct:
  "m_saved s \<noteq> m_scratchpad s \<Longrightarrow> m_saved (writeScratchpad s v) \<noteq> m_scratchpad (writeScratchpad s v)"
  by (simp add: writeScratchpad_def)

lemma not_neq_self: "NOT (w::u32) \<noteq> w"
proof
  assume "NOT w = w"
  then have "bit (NOT w) 0 = bit w 0" by simp
  then show False by (simp add: bit_not_iff)
qed

lemma operator_assign_seqNum:
  "this \<noteq> rhs \<Longrightarrow> m_seqNum (operator_assign r this rhs) this = next_seqNum (m_seqNum r rhs)"
  by (simp add: operator_assign_def Let_def next_seqNum_def)

lemma reopen_after_save:
  assumes "m_saved s \<noteq> m_scratchpad s"
  shows "getScratchpad (ParticleRetainedAtomic (mem (save s)) d) = getScratchpad s"
proof -
  let ?r = "mem (save s)"
  have valid: "isValid ?r M_a \<or> isValid ?r M_b"
    using save_saved_valid [OF assms] by (cases "m_scratchpad s") simp_all
  have "m_seqNum ?r (m_saved s) \<noteq> m_seqNum ?r (m_scratchpad s)"
    using assms by (simp add: save_seqNum_scratchpad save_seqNum_saved next_seqNum_neq)
  with assms have "m_seqNum ?r M_a \<noteq> m_seqNum ?r M_b"
    by (cases "m_scratchpad s"; cases "m_saved s") auto
  with valid have keeps: "mem (recover ?r d) = ?r"
    and distinct: "m_saved (recover ?r d) \<noteq> m_scratchpad (recover ?r d)"
    using recover_keeps [of ?r d] by simp_all
  have "getScratchpad (ParticleRetainedAtomic ?r d) = getScratchpad (recover ?r d)"
    by (simp add: ParticleRetainedAtomic_def getScratchpad_save)
  also have "\<dots> = m_data ?r (m_scratchpad (recover ?r d))"
    by (simp add: getScratchpad_def keeps)
  also have "\<dots> = getScratchpad s"
    using assms by (simp add: save_data getScratchpad_def)
  finally show ?thesis .
qed

section \<open>Validity of the two pages after a save\<close>

lemma save_scratchpad_valid_iff:
  assumes "m_saved s \<noteq> m_scratchpad s" and "getScratchpad s \<noteq> []"
  shows "isValid (mem (save s)) (m_saved s) \<longleftrightarrow>
         NOT (of_nat (byte_sum (getScratchpad s) (next_seqNum (m_seqNum (mem s) (m_scratchpad s)))) :: u32)
         = of_nat (byte_sum (getScratchpad s) (m_seqNum (mem s) (m_scratchpad s)))"
proof -
  let ?X = "m_scratchpad s" and ?Y = "m_saved s"
  have dY: "m_data (mem (save s)) ?Y = getScratchpad s"
    using assms(1) by (simp add: save_data getScratchpad_def)
  have neX: "m_data (mem s) ?X \<noteq> []" using assms(2) by (simp add: getScratchpad_def)
  have neY: "m_data (mem (save s)) ?Y \<noteq> []" using assms(2) by (simp add: dY)
  have qY: "m_seqNum (mem (save s)) ?Y = next_seqNum (m_seqNum (mem s) ?X)"
    using assms(1) by (rule save_seqNum_scratchpad)
  have cY: "m_checksum (mem (save s)) ?Y = NOT (calculateChecksum (mem s) ?X)"
    using assms(1) by (rule save_checksum_scratchpad)
  show ?thesis
    unfolding isValid_def cY calculateChecksum_byte_sum [OF neX] calculateChecksum_byte_sum [OF neY]
      dY qY
    by (simp add: getScratchpad_def)
qed

lemma save_scratchpad_invalid:
  assumes "m_saved s \<noteq> m_scratchpad s" and "getScratchpad s \<noteq> []"
    and "byte_sum (getScratchpad s) (m_seqNum (mem s) (m_scratchpad s)) < 2 ^ 31"
    and "byte_sum (getScratchpad s) (next_seqNum (m_seqNum (mem s) (m_scratchpad s))) < 2 ^ 31"
  shows "\<not> isValid (mem (save s)) (m_saved s)"
  unfolding save_scratchpad_valid_iff [OF assms(1,2)]
  using assms(4,3) by (rule not_small_neq_small)

lemma save_single_valid:
  assumes "m_saved s \<noteq> m_scratchpad s" and "getScratchpad s \<noteq> []"
    and "byte_sum (getScratchpad s) (m_seqNum (mem s) (m_scratchpad s)) < 2 ^ 31"
    and "byte_sum (getScratchpad s) (next_seqNum (m_seqNum (mem s) (m_scratchpad s))) < 2 ^ 31"
  shows "single_valid (mem (save s)) \<and> isValid (mem (save s)) (m_saved (save s))
         \<and> \<not> isValid (mem (save s)) (m_scratchpad (save s))"
proof -
  have a: "isValid (mem (save s)) (m_scratchpad s)" using assms(1) by (rule save_saved_valid)
  have b: "\<not> isValid (mem (save s)) (m_saved s)" using assms by (rule save_scratchpad_invalid)
  from a b assms(1) have "single_valid (mem (save s))"
    by (cases "m_scratchpad s"; cases "m_saved s") (simp_all add: single_valid_def)
  with a b show ?thesis by (simp add: save_pointers)
qed

lemma save_single_valid_bounded:
  assumes "m_saved s \<noteq> m_scratchpad s" and "getScratchpad s \<noteq> []"
    and "length (getScratchpad s) \<le> 8421502"
  shows "single_valid (mem (save s)) \<and> isValid (mem (save s)) (m_saved (save s))
         \<and> \<not> isValid (mem (save s)) (m_scratchpad (save s))"
proof -
  have "byte_sum (getScratchpad s) q < 2 ^ 31" for q
    using byte_sum_le_510 [of "getScratchpad s" q] assms(3) by simp
  then show ?thesis using assms(1,2) by (intro save_single_valid)
qed

lemma getScratchpad_recover:
  "getScratchpad (recover r d) = retainedPageA r \<or> getScratchpad (recover r d) = retainedPageB r
   \<or> getScratchpad (recover r d) = d"
  by (simp add: recover_def getScratchpad_def init_def)

lemma recover_both_valid:
  assumes "isValid r M_a" and "isValid r M_b"
  shows "m_seqNum r M_b < m_seqNum r M_a \<Longrightarrow> m_scratchpad (recover r d) = M_a \<and> mem (recover r d) = r"
    and "m_seqNum r M_b = 0xFFFF \<Longrightarrow> m_seqNum r M_a = 1 \<Longrightarrow>
         m_scratchpad (recover r d) = M_a \<and> mem (recover r d) = r"
    and "m_seqNum r M_a < m_seqNum r M_b \<Longrightarrow> \<not> (m_seqNum r M_b = 0xFFFF \<and> m_seqNum r M_a = 1) \<Longrightarrow>
         m_scratchpad (recover r d) = M_b \<and> mem (recover r d) = r"
  using assms by (auto simp add: recover_def)

text \<open>
  With sequence numbers 65535 on page A and 1 on page B the first test of the
  constructor holds, so its second branch is not reached.
\<close>

lemma recover_A_max_B_one:
  assumes "isValid r M_a" and "isValid r M_b"
    and "m_seqNum r M_a = 0xFFFF" and "m_seqNum r M_b = 1"
  shows "recover r d = \<lparr>mem = r, m_scratchpad = M_a, m_saved = M_b\<rparr>"
proof -
  have "m_seqNum r M_b < m_seqNum r M_a" unfolding assms(3,4) by simp
  with assms(1,2) show ?thesis by (simp add: recover_def)
qed

lemma byte_sum_big_record:
  "byte_sum big_record 0xFFFE = 2 ^ 31 - 1" "byte_sum big_record 0xFFFF = 2 ^ 31"
  by (simp_all add: byte_sum_def big_record_def sum_list_replicate)

lemma big_record_nonempty: "big_record \<noteq> []"
  by (simp add: big_record_def)

text \<open>
  The memory that \<^verbatim>\<open>save\<close> leaves is what \<^verbatim>\<open>clearChecksum\<close> makes of the
  copy. The copy itself, taken before \<^verbatim>\<open>clearChecksum\<close> runs, is never valid:
  it carries the checksum of the source with the next sequence number, and the two
  sequence numbers differ in the sum of their bytes.
\<close>

lemma mem_save:
  "mem (save s) =
   clearChecksum (operator_assign (writeChecksum (mem s) (m_scratchpad s)) (m_saved s) (m_scratchpad s))
     (m_saved s)"
  by (simp add: save_def Let_def)

lemma seq_bytes_Suc: "Suc n div 256 + Suc n mod 256 \<noteq> n div 256 + n mod 256"
  by (simp add: mod_Suc div_Suc)

lemma seq_bytes_next_neq:
  "unat (next_seqNum q) div 256 + unat (next_seqNum q) mod 256 \<noteq> unat q div 256 + unat q mod 256"
proof (cases "unat q = 65535")
  case True
  then show ?thesis by (simp add: unat_next_seqNum)
next
  case False
  then have "unat (next_seqNum q) = Suc (unat q)" by (simp add: unat_next_seqNum)
  then show ?thesis by (simp only: seq_bytes_Suc not_False_eq_True)
qed

lemma seq_bytes_le: "unat (q::u16) div 256 + unat q mod 256 \<le> 510"
proof -
  have "unat q < 2 ^ LENGTH(16)" by (rule unsigned_less)
  then have "unat q div 256 \<le> 255" by simp
  moreover have "unat q mod 256 \<le> 255" by simp
  ultimately show ?thesis by linarith
qed


lemma of_nat_small_eq:
  assumes "(of_nat a :: u32) = of_nat b" and "a \<le> 510" and "b \<le> 510"
  shows "a = b"
proof -
  have "unat (of_nat a :: u32) = unat (of_nat b :: u32)" using assms(1) by simp
  moreover have "unat (of_nat a :: u32) = a" using assms(2) by (simp add: unat_of_nat)
  moreover have "unat (of_nat b :: u32) = b" using assms(3) by (simp add: unat_of_nat)
  ultimately show ?thesis by simp
qed

lemma copy_invalid_before_clear:
  assumes "this \<noteq> rhs" and "m_data r rhs \<noteq> []"
  shows "\<not> isValid (operator_assign (writeChecksum r rhs) this rhs) this"
proof
  let ?r' = "operator_assign (writeChecksum r rhs) this rhs"
  let ?d = "m_data r rhs" and ?q = "m_seqNum r rhs"
  let ?h = "unat ?q div 256 + unat ?q mod 256"
  let ?h' = "unat (next_seqNum ?q) div 256 + unat (next_seqNum ?q) mod 256"
  let ?S = "sum_list (map unat ?d)"
  assume v: "isValid ?r' this"
  have dat: "m_data ?r' this = ?d"
    using assms(1) by (simp add: operator_assign_def writeChecksum_def Let_def)
  have sq: "m_seqNum ?r' this = next_seqNum ?q"
    using assms(1) by (simp add: operator_assign_seqNum writeChecksum_def)
  have ck: "m_checksum ?r' this = calculateChecksum r rhs"
    using assms(1) by (simp add: operator_assign_def writeChecksum_def Let_def)
  have ne: "m_data ?r' this \<noteq> []" using assms(2) by (simp add: dat)
  from v have "calculateChecksum ?r' this = calculateChecksum r rhs"
    by (simp only: isValid_def ck)
  then have "NOT (of_nat (byte_sum ?d (next_seqNum ?q)) :: u32) = NOT (of_nat (byte_sum ?d ?q))"
    unfolding calculateChecksum_byte_sum [OF ne] calculateChecksum_byte_sum [OF assms(2)] dat sq .
  then have "(of_nat (byte_sum ?d (next_seqNum ?q)) :: u32) = of_nat (byte_sum ?d ?q)" by simp
  moreover have "byte_sum ?d (next_seqNum ?q) = ?S + ?h'" by (simp add: byte_sum_def)
  moreover have "byte_sum ?d ?q = ?S + ?h" by (simp add: byte_sum_def)
  ultimately have "(of_nat (?S + ?h') :: u32) = of_nat (?S + ?h)" by (simp only:)
  then have "(of_nat ?S :: u32) + of_nat ?h' = of_nat ?S + of_nat ?h" by (simp only: of_nat_add)
  then have "(of_nat ?h' :: u32) = of_nat ?h" by (simp only: add_left_cancel)
  then have "?h' = ?h" using seq_bytes_le seq_bytes_le by (rule of_nat_small_eq)
  with seq_bytes_next_neq show False by blast
qed

text \<open>
  For records of at most 8421502 bytes the sums stay below \<open>2^31\<close>, and exactly one
  page is valid after \<^verbatim>\<open>save\<close> and after the constructor: the saved page is, the
  scratchpad is not.
\<close>

lemma single_valid_bounded:
  assumes "0 < n" and "n \<le> 8421502"
    and "m_saved s \<noteq> m_scratchpad s" and "length (getScratchpad s) = n"
    and "length (retainedPageA r) = n" and "length (retainedPageB r) = n" and "length d = n"
  shows "single_valid (mem (save s))
       \<and> isValid (mem (save s)) (m_saved (save s))
       \<and> \<not> isValid (mem (save s)) (m_scratchpad (save s))
       \<and> single_valid (mem (ParticleRetainedAtomic r d))
       \<and> isValid (mem (ParticleRetainedAtomic r d)) (m_saved (ParticleRetainedAtomic r d))
       \<and> \<not> isValid (mem (ParticleRetainedAtomic r d)) (m_scratchpad (ParticleRetainedAtomic r d))"
proof -
  have ne: "getScratchpad s \<noteq> []" using assms(1,4) by auto
  have le: "length (getScratchpad s) \<le> 8421502" using assms(2,4) by simp
  have one: "single_valid (mem (save s)) \<and> isValid (mem (save s)) (m_saved (save s))
       \<and> \<not> isValid (mem (save s)) (m_scratchpad (save s))"
    using assms(3) ne le by (rule save_single_valid_bounded)
  let ?t = "recover r d"
  have len: "length (getScratchpad ?t) = n"
    using getScratchpad_recover [of r d] assms(5,6,7) by auto
  have ne': "getScratchpad ?t \<noteq> []" using assms(1) len by auto
  have le': "length (getScratchpad ?t) \<le> 8421502" using assms(2) len by simp
  have "single_valid (mem (save ?t)) \<and> isValid (mem (save ?t)) (m_saved (save ?t))
       \<and> \<not> isValid (mem (save ?t)) (m_scratchpad (save ?t))"
    using recover_distinct ne' le' by (rule save_single_valid_bounded)
  with one show ?thesis by (simp add: ParticleRetainedAtomic_def)
qed

text \<open>
  With no valid page the constructor initialises page A from the default value. For
  every size of the record the constructed store has the default value as its
  scratchpad record, and page A is the saved page, valid and holding the default
  value. Page B is not valid when the default value has at most 8421504 bytes.
\<close>

lemma double_invalid_any_size:
  assumes "\<not> isValid r M_a" and "\<not> isValid r M_b"
  shows "recover r d = \<lparr>mem = init r M_a d, m_scratchpad = M_a, m_saved = M_b\<rparr>"
    and "getScratchpad (ParticleRetainedAtomic r d) = d"
    and "m_saved (ParticleRetainedAtomic r d) = M_a"
    and "m_data (mem (ParticleRetainedAtomic r d)) M_a = d"
    and "isValid (mem (ParticleRetainedAtomic r d)) M_a"
proof -
  let ?t = "\<lparr>mem = init r M_a d, m_scratchpad = M_a, m_saved = M_b\<rparr>"
  show rec: "recover r d = ?t" using assms by (simp add: recover_def)
  have dist: "m_saved ?t \<noteq> m_scratchpad ?t" by simp
  have g: "getScratchpad ?t = d" by (simp add: getScratchpad_def init_def)
  show "getScratchpad (ParticleRetainedAtomic r d) = d"
    by (simp only: ParticleRetainedAtomic_def rec getScratchpad_save g)
  show "m_saved (ParticleRetainedAtomic r d) = M_a"
    by (simp add: ParticleRetainedAtomic_def rec save_pointers)
  have "m_data (mem (save ?t)) M_a = m_data (mem ?t) (m_scratchpad ?t)"
    by (rule save_data) simp
  then show "m_data (mem (ParticleRetainedAtomic r d)) M_a = d"
    by (simp add: ParticleRetainedAtomic_def rec init_def)
  have "isValid (mem (save ?t)) (m_scratchpad ?t)" using dist by (rule save_saved_valid)
  then show "isValid (mem (ParticleRetainedAtomic r d)) M_a"
    by (simp add: ParticleRetainedAtomic_def rec)
qed

lemma double_invalid_bounded:
  assumes "\<not> isValid r M_a" and "\<not> isValid r M_b" and "d \<noteq> []" and "length d \<le> 8421504"
  shows "\<not> isValid (mem (ParticleRetainedAtomic r d)) M_b"
    and "single_valid (mem (ParticleRetainedAtomic r d))"
proof -
  let ?t = "\<lparr>mem = init r M_a d, m_scratchpad = M_a, m_saved = M_b\<rparr>"
  have rec: "recover r d = ?t" using assms(1,2) by (rule double_invalid_any_size)
  have dist: "m_saved ?t \<noteq> m_scratchpad ?t" by simp
  have g: "getScratchpad ?t = d" by (simp add: getScratchpad_def init_def)
  have q: "m_seqNum (mem ?t) (m_scratchpad ?t) = 1" by (simp add: init_def)
  have ne: "getScratchpad ?t \<noteq> []" using assms(3) by (simp add: g)
  have s: "sum_list (map unat d) \<le> 2147483520"
    using sum_list_unat_le [of d] assms(4) by simp
  have b1: "byte_sum (getScratchpad ?t) (m_seqNum (mem ?t) (m_scratchpad ?t)) < 2 ^ 31"
    unfolding g q using s by (simp add: byte_sum_def)
  have b2: "byte_sum (getScratchpad ?t) (next_seqNum (m_seqNum (mem ?t) (m_scratchpad ?t))) < 2 ^ 31"
    unfolding g q using s by (simp add: byte_sum_def next_seqNum_def)
  have one: "single_valid (mem (save ?t)) \<and> isValid (mem (save ?t)) (m_saved (save ?t))
         \<and> \<not> isValid (mem (save ?t)) (m_scratchpad (save ?t))"
    using dist ne b1 b2 by (rule save_single_valid)
  from one show "\<not> isValid (mem (ParticleRetainedAtomic r d)) M_b"
    by (simp add: ParticleRetainedAtomic_def rec save_pointers)
  from one show "single_valid (mem (ParticleRetainedAtomic r d))"
    by (simp add: ParticleRetainedAtomic_def rec)
qed

text \<open>The large memories \<open>c3_mem\<close> and \<open>c4_mem\<close> before construction.\<close>

lemma c3_mem_valid: "isValid c3_mem M_a" "\<not> isValid c3_mem M_b"
proof -
  show "isValid c3_mem M_a"
    unfolding isValid_def
    using calculateChecksum_byte_sum [of c3_mem M_a]
    by (simp add: c3_mem_def big_record_nonempty byte_sum_big_record)
  have "calculateChecksum c3_mem M_b = NOT (of_nat (byte_sum (replicate 8421503 0) 0))"
    using calculateChecksum_byte_sum [of c3_mem M_b] by (simp add: c3_mem_def)
  then show "\<not> isValid c3_mem M_b"
    by (simp add: isValid_def c3_mem_def byte_sum_def sum_list_replicate)
qed

lemma c4_mem_invalid: "\<not> isValid c4_mem p"
proof -
  have "calculateChecksum c4_mem p = NOT (of_nat (byte_sum (replicate 8421505 0) 0))"
    using calculateChecksum_byte_sum [of c4_mem p] by (cases p) (simp_all add: c4_mem_def)
  then show ?thesis
    by (cases p) (simp_all add: isValid_def c4_mem_def byte_sum_def sum_list_replicate)
qed

lemma recover_c3: "recover c3_mem c3_default = \<lparr>mem = c3_mem, m_scratchpad = M_a, m_saved = M_b\<rparr>"
  using c3_mem_valid by (simp add: recover_def)

section \<open>The claims\<close>

text \<open>
  Claim C1 (round trip). On a store whose two pointers name different pages, as the
  constructor leaves them and \<^verbatim>\<open>save\<close> keeps them, let the caller write the
  record \<open>v\<close> into the scratchpad and call \<^verbatim>\<open>save()\<close>. A new store
  constructed over the retained memory left behind, with any default value \<open>d\<close>, has
  \<open>v\<close> as its scratchpad record.
\<close>

theorem round_trip:
  assumes "m_saved s \<noteq> m_scratchpad s"
  shows "getScratchpad (ParticleRetainedAtomic (mem (save (writeScratchpad s v))) d) = v"
proof -
  have "m_saved (writeScratchpad s v) \<noteq> m_scratchpad (writeScratchpad s v)"
    using assms by (simp add: writeScratchpad_def)
  then have "getScratchpad (ParticleRetainedAtomic (mem (save (writeScratchpad s v))) d) =
             getScratchpad (writeScratchpad s v)"
    by (rule reopen_after_save)
  then show ?thesis by (simp add: getScratchpad_def writeScratchpad_def)
qed


theorem round_trip_witness:
  "m_saved (ParticleRetainedAtomic c1_mem [1, 2]) \<noteq> m_scratchpad (ParticleRetainedAtomic c1_mem [1, 2])
   \<and> getScratchpad (ParticleRetainedAtomic
         (mem (save (writeScratchpad (ParticleRetainedAtomic c1_mem [1, 2]) [3, 4]))) [9, 9]) = [3, 4]"
proof -
  have h: "m_saved (ParticleRetainedAtomic c1_mem [1, 2]) \<noteq> m_scratchpad (ParticleRetainedAtomic c1_mem [1, 2])"
    by (simp add: ParticleRetainedAtomic_def save_pointers recover_def)
  show ?thesis using h round_trip [OF h, of "[3, 4]" "[9, 9]"] by simp
qed

text \<open>
  Claim C2 (both pages valid). The constructor's first test
  \<^verbatim>\<open>m_a.m_seqNum > m_b.m_seqNum || (m_b.m_seqNum == UINT16_MAX && m_a.m_seqNum == 1)\<close>
  already holds when page A has sequence number 65535 and page B has 1, so the wrap
  test of the second branch is never reached with these numbers. On \<open>c2_mem\<close>,
  where both pages are valid with these sequence numbers, page A is taken as the newer
  one: it becomes the scratchpad of the closing \<^verbatim>\<open>save()\<close>, and afterwards both
  pages and the scratchpad record hold page A's byte \<open>0xAA\<close>; page B's byte
  \<open>0xBB\<close> is gone. The claim asks for page B here.
\<close>

theorem wrap_A_max_B_one_keeps_A:
  "isValid c2_mem M_a \<and> isValid c2_mem M_b
   \<and> m_seqNum c2_mem M_a = 0xFFFF \<and> m_seqNum c2_mem M_b = 1
   \<and> m_data c2_mem M_a = [0xAA] \<and> m_data c2_mem M_b = [0xBB]
   \<and> m_scratchpad (recover c2_mem [0]) = M_a
   \<and> getScratchpad (ParticleRetainedAtomic c2_mem [0]) = [0xAA]
   \<and> m_saved (ParticleRetainedAtomic c2_mem [0]) = M_a
   \<and> m_data (mem (ParticleRetainedAtomic c2_mem [0])) M_a = [0xAA]
   \<and> m_data (mem (ParticleRetainedAtomic c2_mem [0])) M_b = [0xAA]"
  by (simp add: ParticleRetainedAtomic_def recover_def save_def isValid_def calculateChecksum_def
      writeChecksum_def operator_assign_def clearChecksum_def init_def c2_mem_def Let_def
      getScratchpad_def)

text \<open>
  Claim C3 (one valid page). \<^verbatim>\<open>save\<close> copies the scratchpad onto the saved page
  and then calls \<^verbatim>\<open>clearChecksum\<close> on the copy, under the comment
  \<^verbatim>\<open>invalidate (previously) saved page\<close>. In \<open>c3_mem\<close> page A is valid, page B
  is not, and the record has 8421503 bytes. The constructor saves from page A. The
  copy on page B is not valid before \<^verbatim>\<open>clearChecksum\<close> runs and is valid after
  it: the sums of the two pages are \<open>2^31 - 1\<close> and \<open>2^31\<close>, each the 32-bit
  complement of the other. The constructed store has two valid pages, where the claim
  says exactly one.
\<close>

theorem save_validates_copy:
  "isValid c3_mem M_a \<and> \<not> isValid c3_mem M_b
   \<and> \<not> isValid (operator_assign (writeChecksum c3_mem M_a) M_b M_a) M_b
   \<and> isValid (clearChecksum (operator_assign (writeChecksum c3_mem M_a) M_b M_a) M_b) M_b
   \<and> mem (ParticleRetainedAtomic c3_mem c3_default) =
       clearChecksum (operator_assign (writeChecksum c3_mem M_a) M_b M_a) M_b
   \<and> isValid (mem (ParticleRetainedAtomic c3_mem c3_default)) M_a
   \<and> isValid (mem (ParticleRetainedAtomic c3_mem c3_default)) M_b
   \<and> \<not> single_valid (mem (ParticleRetainedAtomic c3_mem c3_default))"
proof -
  let ?s = "\<lparr>mem = c3_mem, m_scratchpad = M_a, m_saved = M_b\<rparr>"
  let ?copy = "operator_assign (writeChecksum c3_mem M_a) M_b M_a"
  have d: "m_saved ?s \<noteq> m_scratchpad ?s" by simp
  have g: "getScratchpad ?s = big_record" by (simp add: getScratchpad_def c3_mem_def)
  have q: "m_seqNum (mem ?s) (m_scratchpad ?s) = 0xFFFE" by (simp add: c3_mem_def)
  have ne: "getScratchpad ?s \<noteq> []" by (simp only: g big_record_nonempty) simp
  have m: "mem (ParticleRetainedAtomic c3_mem c3_default) = clearChecksum ?copy M_b"
    by (simp add: ParticleRetainedAtomic_def recover_c3 mem_save)
  have "m_data c3_mem M_a \<noteq> []" by (simp add: c3_mem_def big_record_nonempty)
  with copy_invalid_before_clear [of M_b M_a c3_mem] have before: "\<not> isValid ?copy M_b" by simp
  have a: "isValid (mem (save ?s)) (m_scratchpad ?s)" using d by (rule save_saved_valid)
  have b: "isValid (mem (save ?s)) (m_saved ?s)"
    unfolding save_scratchpad_valid_iff [OF d ne] g q
    by (simp add: next_seqNum_def byte_sum_big_record)
  from a have a': "isValid (clearChecksum ?copy M_b) M_a" by (simp add: mem_save)
  from b have b': "isValid (clearChecksum ?copy M_b) M_b" by (simp add: mem_save)
  from a' b' have "\<not> single_valid (clearChecksum ?copy M_b)" by (simp add: single_valid_def)
  with a' b' before c3_mem_valid show ?thesis by (simp only: m) simp
qed

text \<open>
  Claim C4 (no valid page). Over the blank memory \<open>c4_mem\<close>, with the default value
  \<open>c4_default\<close> of 8421505 bytes, neither page is valid before construction. The
  constructor initialises page A from the default value and saves, and the scratchpad
  record of the constructed store is the default value, as the claim says. The copy on
  page B is not valid before \<^verbatim>\<open>clearChecksum\<close> runs and is valid after it, so
  both pages are valid after construction, where the claim says exactly one.
\<close>

theorem double_invalid_two_valid:
  "\<not> isValid c4_mem M_a \<and> \<not> isValid c4_mem M_b
   \<and> recover c4_mem c4_default =
       \<lparr>mem = init c4_mem M_a c4_default, m_scratchpad = M_a, m_saved = M_b\<rparr>
   \<and> getScratchpad (ParticleRetainedAtomic c4_mem c4_default) = c4_default
   \<and> \<not> isValid (operator_assign (writeChecksum (init c4_mem M_a c4_default) M_a) M_b M_a) M_b
   \<and> isValid (clearChecksum
        (operator_assign (writeChecksum (init c4_mem M_a c4_default) M_a) M_b M_a) M_b) M_b
   \<and> mem (ParticleRetainedAtomic c4_mem c4_default) =
       clearChecksum (operator_assign (writeChecksum (init c4_mem M_a c4_default) M_a) M_b M_a) M_b
   \<and> isValid (mem (ParticleRetainedAtomic c4_mem c4_default)) M_a
   \<and> isValid (mem (ParticleRetainedAtomic c4_mem c4_default)) M_b
   \<and> \<not> single_valid (mem (ParticleRetainedAtomic c4_mem c4_default))"
proof -
  let ?i = "init c4_mem M_a c4_default"
  let ?t = "\<lparr>mem = ?i, m_scratchpad = M_a, m_saved = M_b\<rparr>"
  let ?copy = "operator_assign (writeChecksum ?i M_a) M_b M_a"
  have inv: "\<not> isValid c4_mem M_a" "\<not> isValid c4_mem M_b" by (rule c4_mem_invalid)+
  have rec: "recover c4_mem c4_default = ?t" using inv by (rule double_invalid_any_size)
  have gs: "getScratchpad (ParticleRetainedAtomic c4_mem c4_default) = c4_default"
    using inv by (rule double_invalid_any_size)
  have dist: "m_saved ?t \<noteq> m_scratchpad ?t" by simp
  have g: "getScratchpad ?t = c4_default" by (simp add: getScratchpad_def init_def)
  have q: "m_seqNum (mem ?t) (m_scratchpad ?t) = 1" by (simp add: init_def)
  have ne: "getScratchpad ?t \<noteq> []" unfolding g by (simp add: c4_default_def)
  have m: "mem (ParticleRetainedAtomic c4_mem c4_default) = clearChecksum ?copy M_b"
    by (simp add: ParticleRetainedAtomic_def rec mem_save)
  have "m_data ?i M_a \<noteq> []" by (simp add: init_def c4_default_def)
  with copy_invalid_before_clear [of M_b M_a ?i] have before: "\<not> isValid ?copy M_b" by simp
  have a: "isValid (mem (save ?t)) (m_scratchpad ?t)" using dist by (rule save_saved_valid)
  have b: "isValid (mem (save ?t)) (m_saved ?t)"
    unfolding save_scratchpad_valid_iff [OF dist ne] g q
    by (simp add: next_seqNum_def byte_sum_def c4_default_def sum_list_replicate)
  from a have a': "isValid (clearChecksum ?copy M_b) M_a" by (simp add: mem_save)
  from b have b': "isValid (clearChecksum ?copy M_b) M_b" by (simp add: mem_save)
  from a' b' have nsv: "\<not> single_valid (clearChecksum ?copy M_b)" by (simp add: single_valid_def)
  from inv rec gs before a' b' nsv show ?thesis by (simp only: m) simp
qed

text \<open>
  Claim C5 (sequence numbers). \<^verbatim>\<open>operator=\<close> between two different pages sets
  the destination's sequence number to the source's plus 1, and to 1 when the source's
  is 65535; the number written is never 0. So each \<^verbatim>\<open>save()\<close> gives the new
  scratchpad the successor of the old scratchpad's sequence number, the next
  \<^verbatim>\<open>save()\<close> the successor of that, and none of them is 0.
\<close>

theorem seqNum_advances:
  assumes "this \<noteq> rhs" and "m_saved s \<noteq> m_scratchpad s"
  shows "m_seqNum (operator_assign r this rhs) this =
           (if m_seqNum r rhs = 0xFFFF then 1 else m_seqNum r rhs + 1)
       \<and> unat (m_seqNum (operator_assign r this rhs) this) =
           (if unat (m_seqNum r rhs) = 65535 then 1 else unat (m_seqNum r rhs) + 1)
       \<and> m_seqNum (operator_assign r this rhs) this \<noteq> 0
       \<and> m_seqNum (mem (save s)) (m_scratchpad (save s)) =
           next_seqNum (m_seqNum (mem s) (m_scratchpad s))
       \<and> m_seqNum (mem (save (save s))) (m_scratchpad (save (save s))) =
           next_seqNum (m_seqNum (mem (save s)) (m_scratchpad (save s)))
       \<and> m_seqNum (mem (save s)) (m_scratchpad (save s)) \<noteq> 0"
proof -
  have a: "m_seqNum (operator_assign r this rhs) this = next_seqNum (m_seqNum r rhs)"
    using assms(1) by (rule operator_assign_seqNum)
  have b: "m_seqNum (mem (save s)) (m_scratchpad (save s)) =
           next_seqNum (m_seqNum (mem s) (m_scratchpad s))"
    using assms(2) by (simp add: save_pointers save_seqNum_scratchpad)
  have "m_saved (save s) \<noteq> m_scratchpad (save s)"
    using assms(2) by (simp add: save_pointers)
  with save_seqNum_scratchpad [of "save s"]
  have c: "m_seqNum (mem (save (save s))) (m_scratchpad (save (save s))) =
           next_seqNum (m_seqNum (mem (save s)) (m_scratchpad (save s)))"
    by (simp add: save_pointers)
  show ?thesis
    unfolding a b c by (simp add: next_seqNum_nonzero unat_next_seqNum) (simp add: next_seqNum_def)
qed

theorem seqNum_advances_witness:
  "M_b \<noteq> M_a \<and> m_saved (ParticleRetainedAtomic c1_mem [1, 2]) \<noteq> m_scratchpad (ParticleRetainedAtomic c1_mem [1, 2])
   \<and> m_seqNum (operator_assign c8_mem M_b M_a) M_b = 8
   \<and> m_seqNum (mem (save (ParticleRetainedAtomic c1_mem [1, 2])))
        (m_scratchpad (save (ParticleRetainedAtomic c1_mem [1, 2]))) = 3"
proof -
  have h1: "M_b \<noteq> M_a" by simp
  have h2: "m_saved (ParticleRetainedAtomic c1_mem [1, 2]) \<noteq> m_scratchpad (ParticleRetainedAtomic c1_mem [1, 2])"
    by (simp add: ParticleRetainedAtomic_def save_pointers recover_def)
  have s: "m_seqNum (mem (ParticleRetainedAtomic c1_mem [1, 2]))
             (m_scratchpad (ParticleRetainedAtomic c1_mem [1, 2])) = 2"
    by (simp add: ParticleRetainedAtomic_def recover_def save_def isValid_def calculateChecksum_def
        writeChecksum_def operator_assign_def clearChecksum_def init_def c1_mem_def Let_def)
  have r: "seqNumA (retainedData c8_mem) = 7" by (simp add: c8_mem_def)
  show ?thesis
    using h2 seqNum_advances [OF h1 h2, of c8_mem] by (simp add: s r next_seqNum_def)
qed

text \<open>
  Claim C6 (checksum). For every page whose record region is not empty (every C++
  object type has at least one byte), \<^verbatim>\<open>calculateChecksum\<close> returns the 32-bit
  complement of the sum, modulo \<open>2^32\<close>, of every byte of the record, of the high
  byte of the sequence number and of its low byte, the two bytes added one by one.
\<close>

theorem calculateChecksum_is_spec:
  assumes "m_data r p \<noteq> []"
  shows "unat (calculateChecksum r p) = spec_checksum (m_data r p) (m_seqNum r p)"
  using unat_calculateChecksum [OF assms] by (simp add: spec_checksum_def byte_sum_def)

theorem calculateChecksum_is_spec_witness:
  "m_data c8_mem M_a \<noteq> [] \<and> unat (calculateChecksum c8_mem M_a) = 4294967218
   \<and> spec_checksum [0x12, 0x34] 7 = 4294967218"
  using calculateChecksum_is_spec [of c8_mem M_a]
  by (simp add: c8_mem_def spec_checksum_def)

text \<open>
  Claim C7 (corruption detection). On a valid page, writing a different value into
  any one byte of the record, with the stored checksum left as it is, makes
  \<^verbatim>\<open>isValid()\<close> false.
\<close>

theorem single_byte_corruption_detected:
  assumes "isValid r p" and "i < length (m_data r p)" and "v \<noteq> m_data r p ! i"
  shows "\<not> isValid (set_data r p ((m_data r p)[i := v])) p"
proof
  let ?xs = "m_data r p"
  let ?r' = "set_data r p (?xs[i := v])"
  let ?q = "m_seqNum r p"
  assume valid': "isValid ?r' p"
  from assms(2) have ne: "?xs \<noteq> []" by auto
  have dat: "m_data ?r' p = ?xs[i := v]" by simp
  from ne have ne': "m_data ?r' p \<noteq> []" by simp
  have "calculateChecksum ?r' p = m_checksum r p"
    using valid' by (simp add: isValid_def)
  also have "\<dots> = calculateChecksum r p"
    using assms(1) by (simp add: isValid_def)
  finally have "NOT (of_nat (byte_sum (?xs[i := v]) ?q) :: u32) = NOT (of_nat (byte_sum ?xs ?q))"
    unfolding calculateChecksum_byte_sum [OF ne] calculateChecksum_byte_sum [OF ne'] by simp
  then have eq: "(of_nat (byte_sum (?xs[i := v]) ?q) :: u32) = of_nat (byte_sum ?xs ?q)"
    by simp
  have "byte_sum (?xs[i := v]) ?q + unat (?xs ! i) = byte_sum ?xs ?q + unat v"
    using sum_list_update_unat [OF assms(2), of v] by (simp add: byte_sum_def)
  then have "(of_nat (byte_sum (?xs[i := v]) ?q + unat (?xs ! i)) :: u32) =
             of_nat (byte_sum ?xs ?q + unat v)"
    by (simp only:)
  then have "(of_nat (byte_sum (?xs[i := v]) ?q) :: u32) + of_nat (unat (?xs ! i)) =
             of_nat (byte_sum ?xs ?q) + of_nat (unat v)"
    by (simp only: of_nat_add)
  with eq have "(of_nat (unat (?xs ! i)) :: u32) = of_nat (unat v)" by simp
  then have "?xs ! i = v" by (rule of_nat_byte_eq)
  with assms(3) show False by simp
qed

theorem single_byte_corruption_detected_witness:
  "isValid c8_mem M_a \<and> (1::nat) < length (m_data c8_mem M_a) \<and> (0x35 :: u8) \<noteq> m_data c8_mem M_a ! 1
   \<and> \<not> isValid (set_data c8_mem M_a [0x12, 0x35]) M_a"
proof -
  have a: "isValid c8_mem M_a" by (simp add: isValid_def calculateChecksum_def c8_mem_def)
  have b: "(1::nat) < length (m_data c8_mem M_a)" by (simp add: c8_mem_def)
  have c: "(0x35 :: u8) \<noteq> m_data c8_mem M_a ! 1" by (simp add: c8_mem_def)
  have d: "(m_data c8_mem M_a)[1 := 0x35] = [0x12, 0x35]" by (simp add: c8_mem_def)
  show ?thesis using a b c single_byte_corruption_detected [OF a b c] by (simp only: d) simp
qed

text \<open>
  Claim C8 (invalidation). On every page for which \<^verbatim>\<open>isValid()\<close> is true,
  \<^verbatim>\<open>clearChecksum()\<close>, which stores the complement of the stored checksum,
  makes \<^verbatim>\<open>isValid()\<close> false.
\<close>

theorem clearChecksum_invalidates:
  assumes "isValid r p"
  shows "\<not> isValid (clearChecksum r p) p"
proof -
  have "calculateChecksum (clearChecksum r p) p = calculateChecksum r p"
    by (simp add: clearChecksum_def)
  moreover have "m_checksum (clearChecksum r p) p = NOT (m_checksum r p)"
    by (simp add: clearChecksum_def)
  ultimately show ?thesis
    using assms not_neq_self [of "m_checksum r p"] by (auto simp add: isValid_def)
qed

theorem clearChecksum_invalidates_witness:
  "isValid c8_mem M_a \<and> \<not> isValid (clearChecksum c8_mem M_a) M_a"
  using clearChecksum_invalidates [of c8_mem M_a]
  by (simp add: isValid_def calculateChecksum_def c8_mem_def)

text \<open>
  Claim C9 (equal sequence numbers). When both pages are valid at construction and
  carry the same sequence number, the constructor takes its last branch: page A is
  initialised from the default value and becomes the scratchpad of the closing
  \<^verbatim>\<open>save()\<close>. The constructed store has the default value as its scratchpad
  record, and its saved page is page A, valid and holding the default value. The
  constructor has no error result.
\<close>

theorem equal_seqNum_fallback:
  assumes "isValid r M_a" and "isValid r M_b" and "m_seqNum r M_a = m_seqNum r M_b"
  shows "recover r d = \<lparr>mem = init r M_a d, m_scratchpad = M_a, m_saved = M_b\<rparr>
       \<and> getScratchpad (ParticleRetainedAtomic r d) = d
       \<and> m_saved (ParticleRetainedAtomic r d) = M_a
       \<and> m_data (mem (ParticleRetainedAtomic r d)) M_a = d
       \<and> isValid (mem (ParticleRetainedAtomic r d)) M_a"
proof -
  have neq: "m_seqNum r M_b \<noteq> 0xFFFF \<or> m_seqNum r M_a \<noteq> 1"
    using assms(3) by auto
  have rec: "recover r d = \<lparr>mem = init r M_a d, m_scratchpad = M_a, m_saved = M_b\<rparr>"
    using assms neq by (auto simp add: recover_def)
  have "getScratchpad (recover r d) = d"
    by (simp add: rec getScratchpad_def init_def)
  then have g: "getScratchpad (ParticleRetainedAtomic r d) = d"
    by (simp add: ParticleRetainedAtomic_def getScratchpad_save)
  have p: "m_saved (ParticleRetainedAtomic r d) = M_a"
    by (simp add: ParticleRetainedAtomic_def save_pointers rec)
  have dist: "m_saved (recover r d) \<noteq> m_scratchpad (recover r d)" by (rule recover_distinct)
  have "m_data (mem (save (recover r d))) M_a = m_data (mem (recover r d)) (m_scratchpad (recover r d))"
    by (rule save_data) (simp add: dist)
  then have dat: "m_data (mem (ParticleRetainedAtomic r d)) M_a = d"
    by (simp add: ParticleRetainedAtomic_def rec init_def)
  have "isValid (mem (save (recover r d))) (m_scratchpad (recover r d))"
    using dist by (rule save_saved_valid)
  then have v: "isValid (mem (ParticleRetainedAtomic r d)) M_a"
    by (simp add: ParticleRetainedAtomic_def rec)
  from rec g p dat v show ?thesis by simp
qed

theorem equal_seqNum_fallback_witness:
  "isValid c9_mem M_a \<and> isValid c9_mem M_b \<and> m_seqNum c9_mem M_a = m_seqNum c9_mem M_b
   \<and> getScratchpad (ParticleRetainedAtomic c9_mem [7]) = [7]
   \<and> m_data (mem (ParticleRetainedAtomic c9_mem [7])) M_a = [7]
   \<and> isValid (mem (ParticleRetainedAtomic c9_mem [7])) M_a"
proof -
  have a: "isValid c9_mem M_a" by (simp add: isValid_def calculateChecksum_def c9_mem_def)
  have b: "isValid c9_mem M_b" by (simp add: isValid_def calculateChecksum_def c9_mem_def)
  have c: "m_seqNum c9_mem M_a = m_seqNum c9_mem M_b" by (simp add: c9_mem_def)
  show ?thesis using a b c equal_seqNum_fallback [OF a b c, of "[7]"] by simp
qed

text \<open>
  Claim C10 (\<^verbatim>\<open>save\<close> keeps the visible record). For every store state, the
  record that \<^verbatim>\<open>getScratchpad()\<close> returns after \<^verbatim>\<open>save()\<close> is the record
  it returned before, although the scratchpad is then the other page.
\<close>

theorem save_keeps_scratchpad_record: "getScratchpad (save s) = getScratchpad s"
  by (rule getScratchpad_save)

end
